theory Spec2Isabelle
  imports Complex_Main
begin

section \<open>The layout script generate\_component\_summary\_pdf.py\<close>

text \<open>
  The script draws one page with a canvas: a global cursor \<open>y\<close> that every drawing
  function lowers, and a canvas \<open>c\<close> that records the current font and the strings
  drawn. Python's floats are read as real numbers: all arithmetic below is exact.
  A Python \<open>str\<close> is a list of characters, each a code point below 256.
\<close>

subsection \<open>Geometry constants\<close>

text \<open>
  Modelled from the spec: \<open>reportlab.lib.pagesizes.letter\<close> is not part of the
  repository; the spec names it a standard Letter page, 8.5 by 11 inches at 72 points
  per inch.
\<close>

definition PAGE_WIDTH :: real where
  "PAGE_WIDTH = 612"

definition PAGE_HEIGHT :: real where
  "PAGE_HEIGHT = 792"

text \<open>\<open>MARGIN = 42\<close> and \<open>CONTENT_WIDTH = PAGE_WIDTH - (2 * MARGIN)\<close>, as in the source.\<close>

definition MARGIN :: real where
  "MARGIN = 42"

definition CONTENT_WIDTH :: real where
  "CONTENT_WIDTH = PAGE_WIDTH - (2 * MARGIN)"

subsection \<open>The canvas and the cursor\<close>

text \<open>
  One \<open>drawString\<close> call, with the font that \<open>setFont\<close> had selected when it ran.
\<close>

record instr =
  op_x :: real
  op_y :: real
  op_text :: string
  op_font :: string
  op_size :: real

text \<open>
  The module's mutable state: the global \<open>y\<close>, and of the canvas \<open>c\<close> the current
  font and the strings drawn so far, oldest first.
\<close>

record state =
  cur_y :: real
  cur_font :: string
  cur_size :: real
  page :: "instr list"

definition setFont :: "string \<Rightarrow> real \<Rightarrow> state \<Rightarrow> state" where
  "setFont name sz s = s\<lparr>cur_font := name, cur_size := sz\<rparr>"

definition drawString :: "real \<Rightarrow> real \<Rightarrow> string \<Rightarrow> state \<Rightarrow> state" where
  "drawString x yy text s =
     s\<lparr>page := page s @
       [\<lparr>op_x = x, op_y = yy, op_text = text, op_font = cur_font s, op_size = cur_size s\<rparr>]\<rparr>"

text \<open>\<open>y -= d\<close>\<close>

definition advance :: "real \<Rightarrow> state \<Rightarrow> state" where
  "advance d s = s\<lparr>cur_y := cur_y s - d\<rparr>"

text \<open>
  \<open>y = PAGE_HEIGHT - MARGIN\<close> on a fresh canvas; nothing is drawn before a
  \<open>setFont\<close>, so the font a fresh canvas starts with is never seen.
\<close>

definition initial :: state where
  "initial = \<lparr>cur_y = PAGE_HEIGHT - MARGIN, cur_font = ''Helvetica'', cur_size = 12, page = []\<rparr>"

subsection \<open>The drawing functions\<close>

definition draw_title :: "string \<Rightarrow> state \<Rightarrow> state" where
  "draw_title text s =
     (let s1 = setFont ''Helvetica-Bold'' 18 s;
          s2 = drawString MARGIN (cur_y s1) text s1
      in advance 22 s2)"

definition draw_heading :: "string \<Rightarrow> state \<Rightarrow> state" where
  "draw_heading text s =
     (let s1 = setFont ''Helvetica-Bold'' 11.5 s;
          s2 = drawString MARGIN (cur_y s1) text s1
      in advance 14 s2)"

text \<open>
  \<open>simpleSplit(text, fontName, fontSize, maxWidth)\<close> and
  \<open>stringWidth(text, fontName, fontSize)\<close> belong to the reportlab library, which is
  not part of the repository. The drawing functions take them as parameters, so what is
  proved of the drawing functions holds for every wrapper and every font metric.
\<close>

type_synonym splitter = "string \<Rightarrow> string \<Rightarrow> real \<Rightarrow> real \<Rightarrow> string list"

type_synonym measurer = "string \<Rightarrow> string \<Rightarrow> real \<Rightarrow> real"

text \<open>
  The loop shared by the wrapping functions:
  \<^verbatim>\<open>for line in lines: c.drawString(x, y, line); y -= line_height\<close>
\<close>

fun draw_lines :: "real \<Rightarrow> real \<Rightarrow> string list \<Rightarrow> state \<Rightarrow> state" where
  "draw_lines x line_height [] s = s"
| "draw_lines x line_height (line # lines) s =
     draw_lines x line_height lines (advance line_height (drawString x (cur_y s) line s))"

definition draw_paragraph :: "splitter \<Rightarrow> string \<Rightarrow> real \<Rightarrow> real \<Rightarrow> state \<Rightarrow> state" where
  "draw_paragraph simpleSplit text fsize line_height s =
     (let s1 = setFont ''Helvetica'' fsize s;
          lines = simpleSplit text ''Helvetica'' fsize CONTENT_WIDTH
      in draw_lines MARGIN line_height lines s1)"

text \<open>
  The body of the loop over the items of \<open>draw_bullets\<close>: an item that wraps to no
  line takes the \<open>continue\<close>.
\<close>

fun bullets_loop ::
  "splitter \<Rightarrow> real \<Rightarrow> real \<Rightarrow> real \<Rightarrow> real \<Rightarrow> string list \<Rightarrow> state \<Rightarrow> state" where
  "bullets_loop simpleSplit fsize line_height bullet_indent text_width [] s = s"
| "bullets_loop simpleSplit fsize line_height bullet_indent text_width (item # items) s =
     (case simpleSplit item ''Helvetica'' fsize text_width of
        [] \<Rightarrow> bullets_loop simpleSplit fsize line_height bullet_indent text_width items s
      | w0 # rest \<Rightarrow>
          bullets_loop simpleSplit fsize line_height bullet_indent text_width items
            (draw_lines (MARGIN + bullet_indent) line_height rest
               (advance line_height (drawString MARGIN (cur_y s) (''- '' @ w0) s))))"

definition draw_bullets :: "splitter \<Rightarrow> string list \<Rightarrow> real \<Rightarrow> real \<Rightarrow> state \<Rightarrow> state" where
  "draw_bullets simpleSplit items fsize line_height s =
     (let s1 = setFont ''Helvetica'' fsize s;
          bullet_indent = 12;
          text_width = CONTENT_WIDTH - bullet_indent
      in bullets_loop simpleSplit fsize line_height bullet_indent text_width items s1)"

text \<open>Python's \<open>str\<close> of a non-negative integer: its decimal digits.\<close>

definition digit_char :: "nat \<Rightarrow> char" where
  "digit_char d = ''0123456789'' ! d"

function str_nat :: "nat \<Rightarrow> string" where
  "str_nat n = (if n < 10 then [digit_char n] else str_nat (n div 10) @ [digit_char (n mod 10)])"
  by pat_completeness auto
termination
  by (relation "measure (\<lambda>n. n)") auto

declare str_nat.simps [simp del]

text \<open>\<open>f"{idx}. "\<close>\<close>

definition prefix_of :: "nat \<Rightarrow> string" where
  "prefix_of idx = str_nat idx @ ''. ''"

text \<open>
  The body of the loop of \<open>draw_numbered\<close> over \<open>enumerate(items, start=1)\<close>; the
  index goes up with every item, skipped or drawn.
\<close>

fun numbered_loop ::
  "splitter \<Rightarrow> measurer \<Rightarrow> real \<Rightarrow> real \<Rightarrow> nat \<Rightarrow> string list \<Rightarrow> state \<Rightarrow> state" where
  "numbered_loop simpleSplit stringWidth fsize line_height idx [] s = s"
| "numbered_loop simpleSplit stringWidth fsize line_height idx (item # items) s =
     (let prefix = prefix_of idx;
          prefix_width = stringWidth prefix ''Helvetica'' fsize;
          text_width = CONTENT_WIDTH - prefix_width
      in case simpleSplit item ''Helvetica'' fsize text_width of
           [] \<Rightarrow> numbered_loop simpleSplit stringWidth fsize line_height (Suc idx) items s
         | w0 # rest \<Rightarrow>
             numbered_loop simpleSplit stringWidth fsize line_height (Suc idx) items
               (draw_lines (MARGIN + prefix_width) line_height rest
                  (advance line_height (drawString MARGIN (cur_y s) (prefix @ w0) s))))"

definition draw_numbered ::
  "splitter \<Rightarrow> measurer \<Rightarrow> string list \<Rightarrow> real \<Rightarrow> real \<Rightarrow> state \<Rightarrow> state" where
  "draw_numbered simpleSplit stringWidth items fsize line_height s =
     numbered_loop simpleSplit stringWidth fsize line_height 1 items
       (setFont ''Helvetica'' fsize s)"

definition section_gap :: "state \<Rightarrow> state" where
  "section_gap s = advance 6 s"

subsection \<open>Sequences of primitive calls\<close>

text \<open>
  One call of a drawing function with its arguments, so that an arbitrary sequence of
  calls is a list.
\<close>

datatype prim =
    Title string
  | Heading string
  | Paragraph string real real
  | Bullets "string list" real real
  | Numbered "string list" real real
  | Gap

fun exec :: "splitter \<Rightarrow> measurer \<Rightarrow> prim \<Rightarrow> state \<Rightarrow> state" where
  "exec ss sw (Title text) s = draw_title text s"
| "exec ss sw (Heading text) s = draw_heading text s"
| "exec ss sw (Paragraph text fsize line_height) s = draw_paragraph ss text fsize line_height s"
| "exec ss sw (Bullets items fsize line_height) s = draw_bullets ss items fsize line_height s"
| "exec ss sw (Numbered items fsize line_height) s = draw_numbered ss sw items fsize line_height s"
| "exec ss sw Gap s = section_gap s"

text \<open>The states after each call of a sequence, the starting state first.\<close>

fun trace :: "splitter \<Rightarrow> measurer \<Rightarrow> prim list \<Rightarrow> state \<Rightarrow> state list" where
  "trace ss sw [] s = [s]"
| "trace ss sw (p # ps) s = s # trace ss sw ps (exec ss sw p s)"



subsection \<open>Where the lines of a block are expected\<close>

text \<open>
  The strings of \<open>ls\<close> in the font \<open>f\<close> at size \<open>z\<close>, all at the abscissa \<open>x\<close>,
  the one of index \<open>k\<close> at height \<open>y0 - lh * k\<close>.
\<close>

definition placed :: "real \<Rightarrow> real \<Rightarrow> real \<Rightarrow> string \<Rightarrow> real \<Rightarrow> string list \<Rightarrow> instr list" where
  "placed x y0 lh f z ls =
     map (\<lambda>k. \<lparr>op_x = x, op_y = y0 - lh * real k, op_text = ls ! k, op_font = f, op_size = z\<rparr>)
       [0..<length ls]"

text \<open>What \<open>draw_numbered\<close> hands to the wrapper for the item with ordinal \<open>idx\<close>.\<close>

definition numbered_width :: "measurer \<Rightarrow> real \<Rightarrow> nat \<Rightarrow> real" where
  "numbered_width stringWidth fsize idx =
     CONTENT_WIDTH - stringWidth (prefix_of idx) ''Helvetica'' fsize"

definition numbered_wrapped :: "splitter \<Rightarrow> measurer \<Rightarrow> real \<Rightarrow> nat \<Rightarrow> string \<Rightarrow> string list" where
  "numbered_wrapped simpleSplit stringWidth fsize idx item =
     simpleSplit item ''Helvetica'' fsize (numbered_width stringWidth fsize idx)"

text \<open>
  The strings expected of one numbered item whose first line is at height \<open>y0\<close>: the
  prefix and the first wrapped line at the left margin, the other lines further right
  by the measured width of the prefix, one line height apart.
\<close>

definition numbered_block ::
  "splitter \<Rightarrow> measurer \<Rightarrow> real \<Rightarrow> real \<Rightarrow> nat \<Rightarrow> string \<Rightarrow> real \<Rightarrow> instr list" where
  "numbered_block simpleSplit stringWidth fsize lh idx item y0 =
     (case numbered_wrapped simpleSplit stringWidth fsize idx item of
        [] \<Rightarrow> []
      | w0 # rest \<Rightarrow>
          \<lparr>op_x = MARGIN, op_y = y0, op_text = prefix_of idx @ w0,
            op_font = ''Helvetica'', op_size = fsize\<rparr> #
          placed (MARGIN + stringWidth (prefix_of idx) ''Helvetica'' fsize) (y0 - lh) lh
            ''Helvetica'' fsize rest)"

text \<open>
  How many lines the items before the one of index \<open>i\<close> take, each wrapped with the
  budget of its own ordinal.
\<close>

definition lines_before :: "splitter \<Rightarrow> measurer \<Rightarrow> real \<Rightarrow> string list \<Rightarrow> nat \<Rightarrow> nat" where
  "lines_before simpleSplit stringWidth fsize items i =
     sum_list (map (\<lambda>j. length (numbered_wrapped simpleSplit stringWidth fsize (Suc j) (items ! j)))
       [0..<i])"


definition numbered_texts :: "nat \<Rightarrow> string list \<Rightarrow> string list" where
  "numbered_texts idx wrapped =
     (case wrapped of [] \<Rightarrow> [] | w0 # rest \<Rightarrow> (prefix_of idx @ w0) # rest)"

subsection \<open>The wrapper\<close>

text \<open>
  Modelled from the spec: reportlab's \<open>simpleSplit\<close> is not part of the repository.
  The spec's wrapper splits the text on whitespace into tokens and accumulates tokens
  greedily into the current line while the measured width of the line stays within
  \<open>max_width\<close>; when adding the next token would exceed it, the current line is closed
  and a new one started with that token. A token wider than \<open>max_width\<close> is placed
  alone on its line. The measure is a parameter.

  Whitespace is what Python's \<open>str.split()\<close> takes for it among the code points
  below 256.
\<close>

definition isspace :: "char \<Rightarrow> bool" where
  "isspace c = ((of_char c :: nat) \<in> {9, 10, 11, 12, 13, 28, 29, 30, 31, 32, 133, 160})"

fun split_acc :: "string \<Rightarrow> string \<Rightarrow> string list" where
  "split_acc acc [] = (if acc = [] then [] else [acc])"
| "split_acc acc (c # cs) =
     (if isspace c then (if acc = [] then split_acc [] cs else acc # split_acc [] cs)
      else split_acc (acc @ [c]) cs)"

definition tokens :: "string \<Rightarrow> string list" where
  "tokens text = split_acc [] text"

text \<open>A token is a non-empty string without whitespace.\<close>

definition is_token :: "string \<Rightarrow> bool" where
  "is_token t = (t \<noteq> [] \<and> (\<forall>c\<in>set t. \<not> isspace c))"

text \<open>\<open>' '.join(ts)\<close>\<close>

fun join_sp :: "string list \<Rightarrow> string" where
  "join_sp [] = []"
| "join_sp [t] = t"
| "join_sp (t # u # ts) = t @ '' '' @ join_sp (u # ts)"

fun wrap_loop :: "(string \<Rightarrow> real) \<Rightarrow> real \<Rightarrow> string list \<Rightarrow> string list \<Rightarrow> string list" where
  "wrap_loop width max_width cur [] = (if cur = [] then [] else [join_sp cur])"
| "wrap_loop width max_width cur (t # ts) =
     (if cur = [] \<or> width (join_sp (cur @ [t])) \<le> max_width
      then wrap_loop width max_width (cur @ [t]) ts
      else join_sp cur # wrap_loop width max_width [t] ts)"

definition wrap :: "measurer \<Rightarrow> splitter" where
  "wrap stringWidth text font sz max_width =
     wrap_loop (\<lambda>line. stringWidth line font sz) max_width [] (tokens text)"

text \<open>
  The first token of every line but the first did not fit at the end of the line before
  it: the wrapper is greedy.
\<close>

fun greedy :: "(string \<Rightarrow> real) \<Rightarrow> real \<Rightarrow> string list \<Rightarrow> bool" where
  "greedy width max_width (l1 # l2 # ls) =
     ((case tokens l2 of [] \<Rightarrow> False | t # ts \<Rightarrow> max_width < width (l1 @ '' '' @ t))
      \<and> greedy width max_width (l2 # ls))"
| "greedy width max_width ls = True"

subsection \<open>The document\<close>

text \<open>
  The module-level calls from \<open>draw_title\<close> to \<open>draw_numbered\<close>, in order, with the
  default font sizes and line heights of the functions.
\<close>

definition driver :: "splitter \<Rightarrow> measurer \<Rightarrow> state \<Rightarrow> state" where
  "driver simpleSplit stringWidth s0 =
     (let s1 = draw_title (''Accessible Spreadsheet Component - One Page Summary'') s0;
          s2 = draw_heading (''What it is'') s1;
          s3 = draw_paragraph simpleSplit
            (''<y11n-spreadsheet> is a Lit 3.0 + TypeScript web component that provides an accessible spreadsheet-style grid in the browser. It implements WAI-ARIA grid semantics with keyboard-first interaction for data entry and calculation workflows.'')
            9.8 12 s2;
          s4 = section_gap s3;
          s5 = draw_heading (''What use cases it covers'') s4;
          s6 = draw_paragraph simpleSplit
            (''Primary use case: embedding a spreadsheet-like UI in web apps where users need to navigate, edit, select ranges, and run formulas while preserving keyboard and screen-reader accessibility.'')
            9.8 12 s5;
          s7 = section_gap s6;
          s8 = draw_heading (''What it does'') s7;
          s9 = draw_bullets simpleSplit
            [''Implements WAI-ARIA grid roles, roving tabindex, and aria-live announcements for active cell feedback.'',
             ''Supports Excel-like keyboard controls: arrows, Tab/Shift+Tab, Enter, Escape, Delete/Backspace, and Ctrl/Cmd shortcuts.'',
             ''Provides in-cell editing via Enter, double-click, or type-to-edit, with optional read-only mode.'',
             ''Evaluates formulas with cell refs, ranges, arithmetic, comparisons, string concatenation, and built-in functions.'',
             ''Allows custom formula extension through registerFunction(name, fn).'',
             ''Handles copy/cut/paste via TSV clipboard serialization with bounds-aware paste behavior.'',
             ''Uses virtual row rendering plus scroll spacers to keep large datasets responsive.'']
            9.6 11.5 s8;
          s10 = section_gap s9;
          s11 = draw_heading (''How it works'') s10;
          s12 = draw_bullets simpleSplit
            [''Grid data is a sparse Map keyed by '' @ [CHR 0x22] @ ''row:col'' @ [CHR 0x22] @ '' (CellData stores rawValue, displayValue, and type).'',
             ''SelectionManager tracks anchor/head cells and normalized ranges for keyboard and pointer selection.'',
             ''FormulaEngine parses and evaluates formulas, then recalculates formula cells after edits or data changes.'',
             ''ClipboardManager converts selected ranges to TSV and parses pasted TSV into bounded cell updates.'',
             ''The component dispatches cell-change, selection-change, and data-change events for integration hooks.'']
            9.6 11.5 s11;
          s13 = section_gap s12;
          s14 = draw_heading (''How to run/use (minimal)'') s13;
          s15 = draw_numbered simpleSplit stringWidth
            [''Install dependencies: npm install'',
             ''Run the local demo/dev app: npm run dev'',
             ''Register the component in your app (repo pattern): import '' @ [CHR 0x27] @ ''./src/index.ts'' @ [CHR 0x27],
             ''Place the element in markup: <y11n-spreadsheet rows='' @ [CHR 0x22] @ ''50'' @ [CHR 0x22] @ '' cols='' @ [CHR 0x22] @ ''26'' @ [CHR 0x22] @ ''></y11n-spreadsheet>'',
             ''Provide data through setData(...) or the data property; listen for cell-change/selection-change/data-change events.'',
             ''Required Node.js version: Not found in repo.'',
             ''Published package install and production import instructions: Not found in repo.'']
            9.6 11.5 s14
      in s15)"

subsection \<open>The file system, the canvas's file and the script\<close>

text \<open>
  Modelled from the spec: \<open>pathlib\<close> and reportlab's \<open>Canvas\<close> are not part of the
  repository. The spec: the parent directories of the output file are created if absent;
  the output file is acquired and written once, at the end of a successful render; a
  lower-level failure to create the directory or to write the file is propagated. A
  path is the list of its components below the working directory; what the file holds
  is the strings drawn on the page.
\<close>

datatype node = Dir | File "instr list"

type_synonym path = "string list"

type_synonym filesystem = "path \<Rightarrow> node option"

record world =
  files :: filesystem
  stdout :: "string list"

datatype error = OSError | RuntimeError real

definition OUTPUT_PATH :: path where
  "OUTPUT_PATH = [''output'', ''pdf'', ''accessible-spreadsheet-component-summary.pdf'']"

text \<open>\<open>Path.parent\<close>\<close>

definition parent :: "path \<Rightarrow> path" where
  "parent p = butlast p"

text \<open>\<open>str(path)\<close>\<close>

fun path_str :: "path \<Rightarrow> string" where
  "path_str [] = ''.''"
| "path_str [a] = a"
| "path_str (a # b # r) = a @ ''/'' @ path_str (b # r)"

text \<open>
  \<open>mkdir(parents=True, exist_ok=True)\<close>: every component of the path, from the
  working directory down, is created when absent and accepted when it is a directory;
  a component that is a file is the failure.
\<close>

fun mkdir_from :: "path \<Rightarrow> path \<Rightarrow> filesystem \<Rightarrow> error + filesystem" where
  "mkdir_from pre [] fs = Inr fs"
| "mkdir_from pre (d # ds) fs =
     (case fs (pre @ [d]) of
        None \<Rightarrow> mkdir_from (pre @ [d]) ds (fs(pre @ [d] \<mapsto> Dir))
      | Some Dir \<Rightarrow> mkdir_from (pre @ [d]) ds fs
      | Some (File content) \<Rightarrow> Inl OSError)"

definition mkdir_parents :: "path \<Rightarrow> filesystem \<Rightarrow> error + filesystem" where
  "mkdir_parents p fs = mkdir_from [] p fs"

text \<open>
  \<open>c.save()\<close> writes the page to the file named when the canvas was made, replacing
  a file already there; it fails when the name is a directory or its parent is not one.
  Making the canvas opens no file.
\<close>

definition save :: "path \<Rightarrow> instr list \<Rightarrow> filesystem \<Rightarrow> error + filesystem" where
  "save p content fs =
     (if fs (parent p) = Some Dir \<and> fs p \<noteq> Some Dir then Inr (fs(p \<mapsto> File content))
      else Inl OSError)"

text \<open>
  The whole module, top to bottom: the \<open>mkdir\<close> of line 8, the drawing calls, the
  check of line 138, \<open>c.save()\<close> and the \<open>print\<close>. The \<open>RuntimeError\<close> carries
  the \<open>y\<close> its message shows.
\<close>

definition script :: "splitter \<Rightarrow> measurer \<Rightarrow> world \<Rightarrow> (error + unit) \<times> world" where
  "script simpleSplit stringWidth w =
     (case mkdir_parents (parent OUTPUT_PATH) (files w) of
        Inl e \<Rightarrow> (Inl e, w)
      | Inr fs1 \<Rightarrow>
          (let w1 = w\<lparr>files := fs1\<rparr>;
               s = driver simpleSplit stringWidth initial
           in if cur_y s < MARGIN then (Inl (RuntimeError (cur_y s)), w1)
              else (case save OUTPUT_PATH (page s) fs1 of
                      Inl e \<Rightarrow> (Inl e, w1)
                    | Inr fs2 \<Rightarrow>
                        (Inr (), w1\<lparr>files := fs2, stdout := stdout w1 @ [path_str OUTPUT_PATH]\<rparr>))))"

subsection \<open>A font metric for the examples\<close>

text \<open>Every character is one unit wide, whatever the font and the size.\<close>

definition unit_width :: measurer where
  "unit_width t f z = real (length t)"

text \<open>Every character is a hundred units wide: a line of the page holds five.\<close>

definition wide_width :: measurer where
  "wide_width t f z = 100 * real (length t)"

subsection \<open>A sequence of calls for the examples\<close>


subsection \<open>Wrappers and worlds for the examples\<close>

text \<open>
  A wrapper that puts every non-empty text on one line, one that returns a hundred
  lines for every text, a file system with nothing in it, and one where the output file
  is already there.
\<close>

definition one_line :: splitter where
  "one_line t f z w = (if t = [] then [] else [t])"

definition hundred_lines :: splitter where
  "hundred_lines t f z w = replicate 100 t"

definition empty_world :: world where
  "empty_world = \<lparr>files = Map.empty, stdout = []\<rparr>"

definition old_world :: world where
  "old_world =
     \<lparr>files = [[''output''] \<mapsto> Dir, [''output'', ''pdf''] \<mapsto> Dir, OUTPUT_PATH \<mapsto> File []],
      stdout = []\<rparr>"

section \<open>Properties\<close>

subsection \<open>The drawing loops in closed form\<close>

lemma draw_lines_y: "cur_y (draw_lines x lh ls s) = cur_y s - lh * real (length ls)"
  by (induction ls arbitrary: s) (simp_all add: advance_def drawString_def algebra_simps)

lemma draw_lines_font:
  "cur_font (draw_lines x lh ls s) = cur_font s" "cur_size (draw_lines x lh ls s) = cur_size s"
  by (induction ls arbitrary: s) (simp_all add: advance_def drawString_def)

lemma placed_Nil: "placed x y0 lh f z [] = []" by (simp add: placed_def)

lemma placed_Cons: "placed x y0 lh f z (l # ls) = \<lparr>op_x = x, op_y = y0, op_text = l, op_font = f, op_size = z\<rparr> # placed x (y0 - lh) lh f z ls"
  by (simp add: placed_def map_upt_Suc algebra_simps del: upt_Suc)

lemma placed_texts: "map op_text (placed x y0 lh f z ls) = ls"
  by (induction ls arbitrary: y0) (simp_all add: placed_Nil placed_Cons)

lemma draw_lines_page: "page (draw_lines x lh ls s) = page s @ placed x (cur_y s) lh (cur_font s) (cur_size s) ls"
  by (induction ls arbitrary: s) (simp_all add: advance_def drawString_def placed_Nil placed_Cons)

lemma paragraph_page:
  "page (draw_paragraph ss text fsize lh s) =
     page s @ placed MARGIN (cur_y s) lh ''Helvetica'' fsize (ss text ''Helvetica'' fsize CONTENT_WIDTH)"
  by (simp add: draw_paragraph_def Let_def draw_lines_page setFont_def)

lemma paragraph_y:
  "cur_y (draw_paragraph ss text fsize lh s) =
     cur_y s - lh * real (length (ss text ''Helvetica'' fsize CONTENT_WIDTH))"
  by (simp add: draw_paragraph_def Let_def draw_lines_y setFont_def)

lemma bullets_loop_y:
  "cur_y (bullets_loop ss fsize lh bi tw items s) =
     cur_y s - lh * real (sum_list (map (\<lambda>item. length (ss item ''Helvetica'' fsize tw)) items))"
  by (induction items arbitrary: s)
     (simp_all add: draw_lines_y advance_def drawString_def algebra_simps split: list.splits)


lemma bullets_loop_skip:
  "ss item ''Helvetica'' fsize tw = [] \<Longrightarrow>
   bullets_loop ss fsize lh bi tw (pre @ item # post) s = bullets_loop ss fsize lh bi tw (pre @ post) s"
  by (induction pre arbitrary: s) (simp_all split: list.splits)

lemma bullets_loop_filter:
  "bullets_loop ss fsize lh bi tw items s =
   bullets_loop ss fsize lh bi tw (filter (\<lambda>item. ss item ''Helvetica'' fsize tw \<noteq> []) items) s"
  by (induction items arbitrary: s) (simp_all split: list.splits)

lemma numbered_loop_y:
  "cur_y (numbered_loop ss sw fsize lh idx items s) =
     cur_y s - lh * real (sum_list (map (\<lambda>j. length (numbered_wrapped ss sw fsize (idx + j) (items ! j))) [0..<length items]))"
proof (induction items arbitrary: idx s)
  case Nil
  then show ?case by simp
next
  case (Cons a as)
  show ?case
    by (simp add: Cons.IH Let_def draw_lines_y advance_def drawString_def numbered_wrapped_def numbered_width_def
        map_upt_Suc algebra_simps del: upt_Suc split: list.splits)
qed

lemma numbered_loop_font:
  "cur_font (numbered_loop ss sw fsize lh idx items s) = cur_font s"
  "cur_size (numbered_loop ss sw fsize lh idx items s) = cur_size s"
  by (induction items arbitrary: idx s)
     (simp_all add: Let_def draw_lines_font advance_def drawString_def split: list.splits)

lemma numbered_loop_texts:
  "map op_text (page (numbered_loop ss sw fsize lh idx items s)) =
     map op_text (page s) @
     concat (map (\<lambda>j. numbered_texts (idx + j) (numbered_wrapped ss sw fsize (idx + j) (items ! j))) [0..<length items])"
proof (induction items arbitrary: idx s)
  case Nil
  then show ?case by simp
next
  case (Cons a as)
  show ?case
    by (simp add: Cons.IH Let_def draw_lines_page placed_texts advance_def drawString_def
        numbered_wrapped_def numbered_width_def numbered_texts_def
        map_upt_Suc del: upt_Suc split: list.splits cong: list.case_cong)
qed

lemma numbered_loop_page:
  "cur_font s = ''Helvetica'' \<Longrightarrow> cur_size s = fsize \<Longrightarrow>
   page (numbered_loop ss sw fsize lh idx items s) =
     page s @
     concat (map (\<lambda>i. numbered_block ss sw fsize lh (idx + i) (items ! i)
                (cur_y s - lh * real (sum_list (map (\<lambda>j. length (numbered_wrapped ss sw fsize (idx + j) (items ! j))) [0..<i]))))
       [0..<length items])"
proof (induction items arbitrary: idx s)
  case Nil
  then show ?case by simp
next
  case (Cons a as)
  define W where "W = numbered_wrapped ss sw fsize idx a"
  define pw where "pw = sw (prefix_of idx) ''Helvetica'' fsize"
  define s1 where "s1 = (case W of [] \<Rightarrow> s | w0 # rest \<Rightarrow>
      draw_lines (MARGIN + pw) lh rest (advance lh (drawString MARGIN (cur_y s) (prefix_of idx @ w0) s)))"
  have step: "numbered_loop ss sw fsize lh idx (a # as) s = numbered_loop ss sw fsize lh (Suc idx) as s1"
    by (simp add: s1_def W_def pw_def Let_def numbered_wrapped_def numbered_width_def split: list.splits)
  have f1: "cur_font s1 = ''Helvetica''" "cur_size s1 = fsize"
    using Cons.prems by (simp_all add: s1_def draw_lines_font advance_def drawString_def split: list.splits)
  have y1: "cur_y s1 = cur_y s - lh * real (length W)"
    by (simp add: s1_def draw_lines_y advance_def drawString_def algebra_simps split: list.splits)
  have p1: "page s1 = page s @ numbered_block ss sw fsize lh idx a (cur_y s)"
    using Cons.prems
    by (simp add: s1_def numbered_block_def W_def[symmetric] pw_def draw_lines_page draw_lines_font
        advance_def drawString_def split: list.splits)
  have sums: "sum_list (map (\<lambda>j. length (numbered_wrapped ss sw fsize (idx + j) ((a # as) ! j))) [0..<Suc i])
      = length W + sum_list (map (\<lambda>j. length (numbered_wrapped ss sw fsize (Suc idx + j) (as ! j))) [0..<i])" for i
    by (simp add: map_upt_Suc W_def del: upt_Suc)
  have "page (numbered_loop ss sw fsize lh idx (a # as) s) =
      page s1 @ concat (map (\<lambda>i. numbered_block ss sw fsize lh (Suc idx + i) (as ! i)
                (cur_y s1 - lh * real (sum_list (map (\<lambda>j. length (numbered_wrapped ss sw fsize (Suc idx + j) (as ! j))) [0..<i]))))
       [0..<length as])"
    unfolding step by (rule Cons.IH[OF f1])
  also have "\<dots> = page s @ concat (map (\<lambda>i. numbered_block ss sw fsize lh (idx + i) ((a # as) ! i)
                (cur_y s - lh * real (sum_list (map (\<lambda>j. length (numbered_wrapped ss sw fsize (idx + j) ((a # as) ! j))) [0..<i]))))
       [0..<length (a # as)])"
    unfolding length_Cons map_upt_Suc sums
    by (simp add: p1 y1 W_def algebra_simps)
  finally show ?case .
qed

subsection \<open>Tokens and the wrapper\<close>

lemma isspace_space: "isspace CHR '' ''"
  by (simp add: isspace_def)

lemma split_acc_nospace:
  "\<forall>c\<in>set t. \<not> isspace c \<Longrightarrow> split_acc acc (t @ s) = split_acc (acc @ t) s"
  by (induction t arbitrary: acc) simp_all

lemma split_acc_append_space:
  "isspace sp \<Longrightarrow> split_acc acc (a @ sp # b) = split_acc acc a @ split_acc [] b"
  by (induction acc a rule: split_acc.induct) simp_all

lemma split_acc_tokens:
  "\<forall>c\<in>set acc. \<not> isspace c \<Longrightarrow> \<forall>t\<in>set (split_acc acc s). is_token t"
proof (induction s arbitrary: acc)
  case Nil
  then show ?case by (simp add: is_token_def)
next
  case (Cons c cs)
  have e: "\<forall>t\<in>set (split_acc [] cs). is_token t"
    by (rule Cons.IH) simp
  show ?case
  proof (cases "isspace c")
    case True
    then show ?thesis using e Cons.prems by (simp add: is_token_def)
  next
    case False
    have "\<forall>t\<in>set (split_acc (acc @ [c]) cs). is_token t"
      by (rule Cons.IH) (use False Cons.prems in simp)
    then show ?thesis using False by simp
  qed
qed

lemma tokens_are_tokens: "\<forall>t\<in>set (tokens s). is_token t"
  using split_acc_tokens[of "[]" s] by (simp add: tokens_def)

lemma tokens_append_space: "tokens (a @ CHR '' '' # b) = tokens a @ tokens b"
  using split_acc_append_space[OF isspace_space, of "[]" a b] by (simp add: tokens_def)

lemma tokens_token: "is_token t \<Longrightarrow> tokens t = [t]"
  using split_acc_nospace[of t "[]" "[]"] by (simp add: tokens_def is_token_def)

lemma tokens_Nil: "tokens [] = []" by (simp add: tokens_def)

lemma tokens_join_sp: "tokens (join_sp ls) = concat (map tokens ls)"
  by (induction ls rule: join_sp.induct) (simp_all add: tokens_Nil tokens_append_space)

lemma tokens_join_tokens: "\<forall>t\<in>set ts. is_token t \<Longrightarrow> tokens (join_sp ts) = ts"
  by (induction ts) (simp_all add: tokens_join_sp tokens_token tokens_Nil)

lemma split_acc_Nil_iff: "split_acc acc s = [] \<longleftrightarrow> acc = [] \<and> (\<forall>c\<in>set s. isspace c)"
  by (induction acc s rule: split_acc.induct) auto

lemma tokens_Nil_iff: "tokens s = [] \<longleftrightarrow> (\<forall>c\<in>set s. isspace c)"
  by (simp add: tokens_def split_acc_Nil_iff)

lemma join_sp_snoc: "cur \<noteq> [] \<Longrightarrow> join_sp (cur @ [t]) = join_sp cur @ '' '' @ t"
  by (induction cur rule: join_sp.induct) simp_all

lemma wrap_loop_Nil_iff: "wrap_loop W mw cur ts = [] \<longleftrightarrow> cur = [] \<and> ts = []"
  by (induction ts arbitrary: cur) auto

lemma wrap_loop_tokens:
  "\<forall>t\<in>set (cur @ ts). is_token t \<Longrightarrow> concat (map tokens (wrap_loop W mw cur ts)) = cur @ ts"
proof (induction ts arbitrary: cur)
  case Nil
  then show ?case by (simp add: tokens_join_tokens)
next
  case (Cons t ts)
  show ?case
  proof (cases "cur = [] \<or> W (join_sp (cur @ [t])) \<le> mw")
    case True
    have "concat (map tokens (wrap_loop W mw (cur @ [t]) ts)) = (cur @ [t]) @ ts"
      by (rule Cons.IH) (use Cons.prems in simp)
    then show ?thesis using True by simp
  next
    case False
    have "concat (map tokens (wrap_loop W mw [t] ts)) = [t] @ ts"
      by (rule Cons.IH) (use Cons.prems in simp)
    moreover have "tokens (join_sp cur) = cur"
      by (rule tokens_join_tokens) (use Cons.prems in simp)
    ultimately show ?thesis using False by simp
  qed
qed

lemma wrap_loop_widths:
  "cur = [] \<or> W (join_sp cur) \<le> mw \<or> (\<exists>t. cur = [t]) \<Longrightarrow>
   \<forall>l\<in>set (wrap_loop W mw cur ts). W l \<le> mw \<or> l \<in> set (cur @ ts)"
proof (induction ts arbitrary: cur)
  case Nil
  then show ?case by auto
next
  case (Cons t ts)
  show ?case
  proof (cases "cur = [] \<or> W (join_sp (cur @ [t])) \<le> mw")
    case True
    have "cur @ [t] = [] \<or> W (join_sp (cur @ [t])) \<le> mw \<or> (\<exists>u. cur @ [t] = [u])"
      using True by auto
    from Cons.IH[OF this] True show ?thesis by auto
  next
    case False
    have "[t] = [] \<or> W (join_sp [t]) \<le> mw \<or> (\<exists>u. [t] = [u])" by simp
    from Cons.IH[OF this] False Cons.prems show ?thesis by auto
  qed
qed

lemma wrap_loop_first:
  "cur \<noteq> [] \<Longrightarrow> \<forall>t\<in>set (cur @ ts). is_token t \<Longrightarrow>
   \<exists>l ls rest. wrap_loop W mw cur ts = l # ls \<and> tokens l = cur @ rest"
proof (induction ts arbitrary: cur)
  case Nil
  then show ?case by (simp add: tokens_join_tokens)
next
  case (Cons t ts)
  show ?case
  proof (cases "W (join_sp (cur @ [t])) \<le> mw")
    case True
    have "\<exists>l ls rest. wrap_loop W mw (cur @ [t]) ts = l # ls \<and> tokens l = (cur @ [t]) @ rest"
      by (rule Cons.IH) (use Cons.prems in simp_all)
    then obtain l ls rest where "wrap_loop W mw (cur @ [t]) ts = l # ls" "tokens l = cur @ (t # rest)"
      by auto
    then show ?thesis using True by simp
  next
    case False
    have "tokens (join_sp cur) = cur"
      by (rule tokens_join_tokens) (use Cons.prems in simp)
    then show ?thesis using False Cons.prems(1) by simp
  qed
qed

lemma wrap_loop_greedy:
  "\<forall>t\<in>set (cur @ ts). is_token t \<Longrightarrow> greedy W mw (wrap_loop W mw cur ts)"
proof (induction ts arbitrary: cur)
  case Nil
  then show ?case by simp
next
  case (Cons t ts)
  show ?case
  proof (cases "cur = [] \<or> W (join_sp (cur @ [t])) \<le> mw")
    case True
    have "greedy W mw (wrap_loop W mw (cur @ [t]) ts)"
      by (rule Cons.IH) (use Cons.prems in simp)
    then show ?thesis using True by simp
  next
    case False
    have "\<exists>l ls rest. wrap_loop W mw [t] ts = l # ls \<and> tokens l = [t] @ rest"
      by (rule wrap_loop_first) (use Cons.prems in simp_all)
    then obtain l ls rest where f: "wrap_loop W mw [t] ts = l # ls" "tokens l = t # rest"
      by auto
    have g: "greedy W mw (wrap_loop W mw [t] ts)"
      by (rule Cons.IH) (use Cons.prems in simp)
    have ne: "cur \<noteq> []" and big: "mw < W (join_sp (cur @ [t]))"
      using False by simp_all
    have "mw < W (join_sp cur @ CHR '' '' # t)"
      using big join_sp_snoc[OF ne, of t] by simp
    then show ?thesis using False f g by simp
  qed
qed

lemma wrap_loop_lines_tokens:
  "\<forall>t\<in>set (cur @ ts). is_token t \<Longrightarrow> \<forall>l\<in>set (wrap_loop W mw cur ts). tokens l \<noteq> []"
proof (induction ts arbitrary: cur)
  case Nil
  then show ?case by (simp add: tokens_join_tokens)
next
  case (Cons t ts)
  show ?case
  proof (cases "cur = [] \<or> W (join_sp (cur @ [t])) \<le> mw")
    case True
    have "\<forall>l\<in>set (wrap_loop W mw (cur @ [t]) ts). tokens l \<noteq> []"
      by (rule Cons.IH) (use Cons.prems in simp)
    then show ?thesis using True by simp
  next
    case False
    have "\<forall>l\<in>set (wrap_loop W mw [t] ts). tokens l \<noteq> []"
      by (rule Cons.IH) (use Cons.prems in simp)
    moreover have "tokens (join_sp cur) = cur"
      by (rule tokens_join_tokens) (use Cons.prems in simp)
    ultimately show ?thesis using False by simp
  qed
qed

subsection \<open>Every primitive lowers the cursor by an amount of its own\<close>




lemma trace_length: "length (trace ss sw ps s) = Suc (length ps)"
  by (induction ps arbitrary: s) simp_all











subsection \<open>Decimal digits and the width of a prefix\<close>

lemma str_nat_small: "n < 10 \<Longrightarrow> str_nat n = [digit_char n]"
  by (simp add: str_nat.simps)

lemma str_nat_big: "10 \<le> n \<Longrightarrow> str_nat n = str_nat (n div 10) @ [digit_char (n mod 10)]"
  by (subst str_nat.simps) simp

lemma str_nat_nonempty: "0 < length (str_nat n)"
  by (subst str_nat.simps) simp

lemma str_nat_long: "10 \<le> n \<Longrightarrow> 2 \<le> length (str_nat n)"
proof -
  assume n: "10 \<le> n"
  have "length (str_nat n) = Suc (length (str_nat (n div 10)))"
    using n by (simp add: str_nat_big)
  moreover have "0 < length (str_nat (n div 10))" by (rule str_nat_nonempty)
  ultimately show ?thesis by linarith
qed

lemma width_str_nat:
  assumes add: "\<forall>a b. sw (a @ b) f z = sw a f z + sw b f z"
    and dig: "\<forall>d<10. sw [digit_char d] f z = w"
  shows "sw (str_nat n) f z = w * real (length (str_nat n))"
proof (induction n rule: str_nat.induct)
  case (1 n)
  show ?case
  proof (cases "n < 10")
    case True
    then show ?thesis using dig by (simp add: str_nat_small)
  next
    case False
    have m: "n mod 10 < 10" by simp
    have "sw (str_nat n) f z = sw (str_nat (n div 10)) f z + sw [digit_char (n mod 10)] f z"
      using False add by (simp add: str_nat_big)
    also have "\<dots> = w * real (length (str_nat (n div 10))) + w"
      using "1.IH"[OF False] dig m by simp
    also have "\<dots> = w * real (length (str_nat n))"
      using False by (simp add: str_nat_big algebra_simps)
    finally show ?thesis .
  qed
qed

lemma numbered_width_less:
  assumes add: "\<forall>a b. sw (a @ b) ''Helvetica'' z = sw a ''Helvetica'' z + sw b ''Helvetica'' z"
    and dig: "\<forall>d<10. sw [digit_char d] ''Helvetica'' z = w"
    and pos: "0 < w"
    and m: "m < 10" and n: "10 \<le> n"
  shows "numbered_width sw z n < numbered_width sw z m"
proof -
  have wm: "sw (str_nat m) ''Helvetica'' z = w * real (length (str_nat m))"
    and wn: "sw (str_nat n) ''Helvetica'' z = w * real (length (str_nat n))"
    using width_str_nat[where sw = sw and f = "''Helvetica''" and z = z and w = w, OF add dig] by blast+
  have lm: "length (str_nat m) = 1" using m by (simp add: str_nat_small)
  have ln: "2 \<le> length (str_nat n)" using n by (rule str_nat_long)
  have "w * 1 < w * real (length (str_nat n))"
    using pos ln by (intro mult_strict_left_mono) simp_all
  then have "sw (str_nat m) ''Helvetica'' z < sw (str_nat n) ''Helvetica'' z"
    using wm wn lm by simp
  moreover have "sw (prefix_of k) ''Helvetica'' z = sw (str_nat k) ''Helvetica'' z + sw ''. '' ''Helvetica'' z" for k
    using add by (simp add: prefix_of_def)
  ultimately show ?thesis by (simp add: numbered_width_def)
qed

subsection \<open>The cursor after the document\<close>

lemma title_y: "cur_y (draw_title t s) = cur_y s - 22"
  by (simp add: draw_title_def setFont_def drawString_def advance_def)

lemma heading_y: "cur_y (draw_heading t s) = cur_y s - 14"
  by (simp add: draw_heading_def setFont_def drawString_def advance_def)

lemma gap_y: "cur_y (section_gap s) = cur_y s - 6"
  by (simp add: section_gap_def advance_def)

lemma bullets_y:
  "cur_y (draw_bullets ss items z lh s) =
     cur_y s - lh * real (sum_list (map (\<lambda>item. length (ss item ''Helvetica'' z (CONTENT_WIDTH - 12))) items))"
  by (simp add: draw_bullets_def Let_def bullets_loop_y setFont_def)

lemma numbered_y:
  "cur_y (draw_numbered ss sw items z lh s) =
     cur_y s - lh * real (sum_list (map (\<lambda>j. length (numbered_wrapped ss sw z (Suc j) (items ! j))) [0..<length items]))"
  by (simp add: draw_numbered_def numbered_loop_y setFont_def)

lemmas cursor_rules = title_y heading_y gap_y paragraph_y bullets_y numbered_y

lemma one_line_y: "cur_y (driver one_line sw initial) = 391.5"
  by (simp add: driver_def Let_def cursor_rules one_line_def numbered_wrapped_def initial_def
      PAGE_HEIGHT_def MARGIN_def upt_conv_Cons del: upt_Suc)

lemma hundred_lines_y: "cur_y (driver hundred_lines sw initial) = - 23616"
  by (simp add: driver_def Let_def cursor_rules hundred_lines_def numbered_wrapped_def initial_def
      PAGE_HEIGHT_def MARGIN_def upt_conv_Cons del: upt_Suc)

subsection \<open>Creating the directories and running the script\<close>

lemma parent_output: "parent OUTPUT_PATH = [''output'', ''pdf'']"
  by (simp add: parent_def OUTPUT_PATH_def)

lemma mkdir_two:
  "mkdir_parents [a, b] fs =
     (case fs [a] of
        Some (File c) \<Rightarrow> Inl OSError
      | _ \<Rightarrow> (case fs [a, b] of
                Some (File c) \<Rightarrow> Inl OSError
              | _ \<Rightarrow> Inr (fs([a] \<mapsto> Dir, [a, b] \<mapsto> Dir))))"
  by (auto simp: mkdir_parents_def map_upd_triv split: option.splits node.splits)

lemma mkdir_two_ok:
  "mkdir_parents [a, b] fs = Inr fs1 \<Longrightarrow> fs1 = fs([a] \<mapsto> Dir, [a, b] \<mapsto> Dir)"
  by (auto simp: mkdir_two split: option.splits node.splits)

lemma mkdir_two_again:
  "mkdir_parents [a, b] fs = Inr fs1 \<Longrightarrow> mkdir_parents [a, b] fs1 = Inr fs1"
  by (auto simp: mkdir_two map_upd_triv split: option.splits node.splits)

lemma mkdir_two_other:
  "mkdir_parents [a, b] fs = Inr fs1 \<Longrightarrow> q \<noteq> [a] \<Longrightarrow> q \<noteq> [a, b] \<Longrightarrow>
   mkdir_parents [a, b] (fs1(q \<mapsto> n)) = Inr (fs1(q \<mapsto> n))"
  by (auto simp: mkdir_two map_upd_triv fun_upd_twist split: option.splits node.splits)

lemma mkdir_output:
  assumes "mkdir_parents (parent OUTPUT_PATH) fs = Inr fs1"
  shows "fs1 OUTPUT_PATH = fs OUTPUT_PATH"
    and "fs1 (parent OUTPUT_PATH) = Some Dir"
    and "fs1 [''output''] = Some Dir"
    and "mkdir_parents (parent OUTPUT_PATH) fs1 = Inr fs1"
    and "mkdir_parents (parent OUTPUT_PATH) (fs1(OUTPUT_PATH \<mapsto> n)) = Inr (fs1(OUTPUT_PATH \<mapsto> n))"
proof -
  have m: "mkdir_parents [''output'', ''pdf''] fs = Inr fs1"
    using assms by (simp add: parent_output)
  have e: "fs1 = fs([''output''] \<mapsto> Dir, [''output'', ''pdf''] \<mapsto> Dir)"
    by (rule mkdir_two_ok[OF m])
  show "fs1 OUTPUT_PATH = fs OUTPUT_PATH" by (simp add: e OUTPUT_PATH_def)
  show "fs1 (parent OUTPUT_PATH) = Some Dir" by (simp add: e parent_output)
  show "fs1 [''output''] = Some Dir" by (simp add: e)
  show "mkdir_parents (parent OUTPUT_PATH) fs1 = Inr fs1"
    unfolding parent_output by (rule mkdir_two_again[OF m])
  show "mkdir_parents (parent OUTPUT_PATH) (fs1(OUTPUT_PATH \<mapsto> n)) = Inr (fs1(OUTPUT_PATH \<mapsto> n))"
    unfolding parent_output by (rule mkdir_two_other[OF m]) (simp_all add: OUTPUT_PATH_def)
qed

lemma script_fail:
  "mkdir_parents (parent OUTPUT_PATH) (files w) = Inl e \<Longrightarrow> script ss sw w = (Inl e, w)"
  by (simp add: script_def)

lemma script_overflow:
  "mkdir_parents (parent OUTPUT_PATH) (files w) = Inr fs1 \<Longrightarrow>
   cur_y (driver ss sw initial) < MARGIN \<Longrightarrow>
   script ss sw w = (Inl (RuntimeError (cur_y (driver ss sw initial))), w\<lparr>files := fs1\<rparr>)"
  by (simp add: script_def Let_def)

lemma script_unsaved:
  "mkdir_parents (parent OUTPUT_PATH) (files w) = Inr fs1 \<Longrightarrow>
   \<not> cur_y (driver ss sw initial) < MARGIN \<Longrightarrow> fs1 OUTPUT_PATH = Some Dir \<Longrightarrow>
   script ss sw w = (Inl OSError, w\<lparr>files := fs1\<rparr>)"
  by (simp add: script_def Let_def save_def)

lemma script_saved:
  "mkdir_parents (parent OUTPUT_PATH) (files w) = Inr fs1 \<Longrightarrow>
   \<not> cur_y (driver ss sw initial) < MARGIN \<Longrightarrow> fs1 OUTPUT_PATH \<noteq> Some Dir \<Longrightarrow>
   script ss sw w =
     (Inr (), \<lparr>files = fs1(OUTPUT_PATH \<mapsto> File (page (driver ss sw initial))),
               stdout = stdout w @ [path_str OUTPUT_PATH]\<rparr>)"
  using mkdir_output(2)[of "files w" fs1]
  by (simp add: script_def Let_def save_def)

lemma parent_not_output: "parent OUTPUT_PATH \<noteq> OUTPUT_PATH"
  by (simp add: parent_def OUTPUT_PATH_def)

lemma script_twice:
  "fst (script ss sw (snd (script ss sw w))) = fst (script ss sw w)
   \<and> files (snd (script ss sw (snd (script ss sw w)))) = files (snd (script ss sw w))"
proof (cases "mkdir_parents (parent OUTPUT_PATH) (files w)")
  case (Inl e)
  then show ?thesis by (simp add: script_fail)
next
  case (Inr fs1)
  note m = mkdir_output[OF Inr]
  show ?thesis
  proof (cases "cur_y (driver ss sw initial) < MARGIN")
    case True
    have again: "mkdir_parents (parent OUTPUT_PATH) (files (w\<lparr>files := fs1\<rparr>)) = Inr fs1"
      using m(4) by simp
    show ?thesis
      by (simp add: script_overflow[OF Inr True] script_overflow[OF again True])
  next
    case False
    show ?thesis
    proof (cases "fs1 OUTPUT_PATH = Some Dir")
      case True
      have again: "mkdir_parents (parent OUTPUT_PATH) (files (w\<lparr>files := fs1\<rparr>)) = Inr fs1"
        using m(4) by simp
      show ?thesis
        by (simp add: script_unsaved[OF Inr False True] script_unsaved[OF again False True])
    next
      case nd: False
      define fs2 where "fs2 = fs1(OUTPUT_PATH \<mapsto> File (page (driver ss sw initial)))"
      define w2 where "w2 = \<lparr>files = fs2, stdout = stdout w @ [path_str OUTPUT_PATH]\<rparr>"
      have first: "script ss sw w = (Inr (), w2)"
        unfolding w2_def fs2_def by (rule script_saved[OF Inr False nd])
      have again: "mkdir_parents (parent OUTPUT_PATH) (files w2) = Inr fs2"
        using m(5) by (simp add: w2_def fs2_def)
      have nd2: "fs2 OUTPUT_PATH \<noteq> Some Dir" by (simp add: fs2_def)
      have same: "fs2(OUTPUT_PATH \<mapsto> File (page (driver ss sw initial))) = fs2"
        by (simp add: fs2_def)
      have second: "script ss sw w2 =
          (Inr (), \<lparr>files = fs2, stdout = stdout w2 @ [path_str OUTPUT_PATH]\<rparr>)"
        using script_saved[OF again False nd2] by (simp add: same)
      have fw2: "files w2 = fs2" by (simp add: w2_def)
      show ?thesis
        by (simp add: first second fw2)
    qed
  qed
qed

lemma mkdir_empty:
  "mkdir_parents (parent OUTPUT_PATH) (files empty_world) =
     Inr (Map.empty([''output''] \<mapsto> Dir, [''output'', ''pdf''] \<mapsto> Dir))"
  by (simp add: empty_world_def parent_output mkdir_two)

lemma mkdir_old:
  "mkdir_parents (parent OUTPUT_PATH) (files old_world) =
     Inr ((files old_world)([''output''] \<mapsto> Dir, [''output'', ''pdf''] \<mapsto> Dir))"
proof -
  have a: "files old_world [''output''] = Some Dir"
    "files old_world [''output'', ''pdf''] = Some Dir"
    by (simp_all add: old_world_def OUTPUT_PATH_def)
  show ?thesis
    unfolding parent_output mkdir_two by (simp add: a)
qed

subsection \<open>The claims\<close>

text \<open>
  C1. Once the directories are there and the drawing calls have run, the script ends
  with the overflow error exactly when the final \<open>y\<close> is below \<open>MARGIN\<close>. When it
  does, what is at the output path is what was there before and nothing is printed.
  When it does not, and the output path is not a directory, the page is written to the
  output path and the path is printed.
\<close>

theorem overflow_guard:
  assumes "mkdir_parents (parent OUTPUT_PATH) (files w) = Inr fs1"
  shows "((\<exists>v. fst (script ss sw w) = Inl (RuntimeError v)) \<longleftrightarrow>
            cur_y (driver ss sw initial) < MARGIN)
   \<and> (cur_y (driver ss sw initial) < MARGIN \<longrightarrow>
        fst (script ss sw w) = Inl (RuntimeError (cur_y (driver ss sw initial)))
        \<and> files (snd (script ss sw w)) OUTPUT_PATH = files w OUTPUT_PATH
        \<and> stdout (snd (script ss sw w)) = stdout w)
   \<and> (\<not> cur_y (driver ss sw initial) < MARGIN \<and> files w OUTPUT_PATH \<noteq> Some Dir \<longrightarrow>
        fst (script ss sw w) = Inr ()
        \<and> files (snd (script ss sw w)) OUTPUT_PATH = Some (File (page (driver ss sw initial)))
        \<and> stdout (snd (script ss sw w)) =
            stdout w @ [''output/pdf/accessible-spreadsheet-component-summary.pdf''])"
proof -
  note m = mkdir_output[OF assms]
  have p: "path_str OUTPUT_PATH = ''output/pdf/accessible-spreadsheet-component-summary.pdf''"
    by (simp add: OUTPUT_PATH_def)
  show ?thesis
    using m(1) m(2) by (simp add: script_def assms Let_def save_def p)
qed

theorem overflow_guard_witness:
  "mkdir_parents (parent OUTPUT_PATH) (files old_world) =
     Inr ((files old_world)([''output''] \<mapsto> Dir, [''output'', ''pdf''] \<mapsto> Dir))
   \<and> cur_y (driver hundred_lines unit_width initial) < MARGIN
   \<and> fst (script hundred_lines unit_width old_world) = Inl (RuntimeError (- 23616))
   \<and> files (snd (script hundred_lines unit_width old_world)) OUTPUT_PATH = Some (File [])
   \<and> stdout (snd (script hundred_lines unit_width old_world)) = []
   \<and> \<not> cur_y (driver one_line unit_width initial) < MARGIN
   \<and> files old_world OUTPUT_PATH = Some (File [])
   \<and> fst (script one_line unit_width old_world) = Inr ()
   \<and> files (snd (script one_line unit_width old_world)) OUTPUT_PATH =
       Some (File (page (driver one_line unit_width initial)))
   \<and> stdout (snd (script one_line unit_width old_world)) =
       [''output/pdf/accessible-spreadsheet-component-summary.pdf'']"
proof -
  have f: "files old_world OUTPUT_PATH = Some (File [])" "stdout old_world = []"
    by (simp_all add: old_world_def)
  show ?thesis
    using overflow_guard[OF mkdir_old, of hundred_lines unit_width]
      overflow_guard[OF mkdir_old, of one_line unit_width]
    by (simp add: mkdir_old hundred_lines_y one_line_y MARGIN_def f)
qed

text \<open>
  C2. For every text, font, size and width, the spec's wrapper returns non-empty lines,
  each within \<open>max_width\<close> unless it is a single token that alone exceeds it; joining
  the lines with single spaces and splitting on whitespace gives back the tokens of the
  text in order; the lines are greedy (the first token of a line did not fit at the end
  of the line before); and no line is returned exactly when the text is empty or all
  whitespace.
\<close>

theorem wrap_correct:
  "(\<forall>l\<in>set (wrap sw text font sz mw).
      l \<noteq> [] \<and> (sw l font sz \<le> mw \<or> (l \<in> set (tokens text) \<and> mw < sw l font sz)))
   \<and> tokens (join_sp (wrap sw text font sz mw)) = tokens text
   \<and> greedy (\<lambda>l. sw l font sz) mw (wrap sw text font sz mw)
   \<and> (wrap sw text font sz mw = [] \<longleftrightarrow> (\<forall>c\<in>set text. isspace c))"
proof -
  let ?W = "\<lambda>l. sw l font sz"
  let ?ls = "wrap_loop ?W mw [] (tokens text)"
  have tk: "\<forall>t\<in>set ([] @ tokens text). is_token t"
    using tokens_are_tokens[of "text"] by simp
  have w: "\<forall>l\<in>set ?ls. ?W l \<le> mw \<or> l \<in> set ([] @ tokens text)"
    by (rule wrap_loop_widths) simp
  have n: "\<forall>l\<in>set ?ls. tokens l \<noteq> []"
    by (rule wrap_loop_lines_tokens[OF tk])
  have a: "\<forall>l\<in>set ?ls. l \<noteq> [] \<and> (?W l \<le> mw \<or> (l \<in> set (tokens text) \<and> mw < ?W l))"
  proof
    fix l assume l: "l \<in> set ?ls"
    have "tokens l \<noteq> []" using n l by blast
    then have "l \<noteq> []" by (auto simp: tokens_Nil)
    moreover have "?W l \<le> mw \<or> (l \<in> set (tokens text) \<and> mw < ?W l)"
      using w l by (cases "?W l \<le> mw") auto
    ultimately show "l \<noteq> [] \<and> (?W l \<le> mw \<or> (l \<in> set (tokens text) \<and> mw < ?W l))" by blast
  qed
  have b: "tokens (join_sp ?ls) = tokens text"
    using wrap_loop_tokens[OF tk, of "?W" mw] by (simp add: tokens_join_sp)
  have c: "greedy ?W mw ?ls"
    by (rule wrap_loop_greedy[OF tk])
  have d: "?ls = [] \<longleftrightarrow> (\<forall>c\<in>set text. isspace c)"
    by (simp add: wrap_loop_Nil_iff tokens_Nil_iff)
  show ?thesis
    unfolding wrap_def using a b c d by blast
qed

theorem wrap_correct_witness:
  "wrap unit_width ''ab cd abcdefgh e'' ''Helvetica'' 10 5 = [''ab cd'', ''abcdefgh'', ''e'']
   \<and> unit_width ''ab cd'' ''Helvetica'' 10 \<le> 5
   \<and> ''abcdefgh'' \<in> set (tokens ''ab cd abcdefgh e'')
   \<and> 5 < unit_width ''abcdefgh'' ''Helvetica'' 10
   \<and> unit_width ''e'' ''Helvetica'' 10 \<le> 5
   \<and> tokens (join_sp [''ab cd'', ''abcdefgh'', ''e'']) = [''ab'', ''cd'', ''abcdefgh'', ''e'']
   \<and> tokens ''ab cd abcdefgh e'' = [''ab'', ''cd'', ''abcdefgh'', ''e'']
   \<and> greedy (\<lambda>l. unit_width l ''Helvetica'' 10) 5 [''ab cd'', ''abcdefgh'', ''e'']"
proof -
  have e: "wrap unit_width ''ab cd abcdefgh e'' ''Helvetica'' 10 5 = [''ab cd'', ''abcdefgh'', ''e'']"
    by (simp add: wrap_def tokens_def isspace_def unit_width_def)
  have t: "tokens ''ab cd abcdefgh e'' = [''ab'', ''cd'', ''abcdefgh'', ''e'']"
    by (simp add: tokens_def isspace_def)
  show ?thesis
    using wrap_correct[of unit_width "''ab cd abcdefgh e''" "''Helvetica''" 10 5]
    unfolding e t by (simp add: unit_width_def)
qed



text \<open>
  C4. \<open>draw_bullets\<close> skips an item whose wrap result is empty: the state after the
  call is the one the call reaches without the item, so no marker is drawn and \<open>y\<close>
  does not move for it; the call equals the call on the items that wrap to some line. With
  the spec's wrapper, the items \<open>["", "  ", "hello"]\<close> draw the one string
  \<open>"- hello"\<close> at the left margin and lower \<open>y\<close> by one line height.
\<close>

theorem bullets_skip_empty:
  "(ss item ''Helvetica'' fsize (CONTENT_WIDTH - 12) = [] \<longrightarrow>
      draw_bullets ss (pre @ item # post) fsize lh s = draw_bullets ss (pre @ post) fsize lh s)
   \<and> draw_bullets ss items fsize lh s =
       draw_bullets ss (filter (\<lambda>item. ss item ''Helvetica'' fsize (CONTENT_WIDTH - 12) \<noteq> []) items) fsize lh s
   \<and> page (draw_bullets (wrap sw) ['''', ''  '', ''hello''] fsize lh s) =
       page s @ [\<lparr>op_x = MARGIN, op_y = cur_y s, op_text = ''- hello'',
                  op_font = ''Helvetica'', op_size = fsize\<rparr>]
   \<and> cur_y (draw_bullets (wrap sw) ['''', ''  '', ''hello''] fsize lh s) = cur_y s - lh"
proof -
  have a: "ss item ''Helvetica'' fsize (CONTENT_WIDTH - 12) = [] \<Longrightarrow>
      draw_bullets ss (pre @ item # post) fsize lh s = draw_bullets ss (pre @ post) fsize lh s"
    by (simp add: draw_bullets_def Let_def bullets_loop_skip)
  have b: "draw_bullets ss items fsize lh s =
       draw_bullets ss (filter (\<lambda>item. ss item ''Helvetica'' fsize (CONTENT_WIDTH - 12) \<noteq> []) items) fsize lh s"
    unfolding draw_bullets_def Let_def by (rule bullets_loop_filter)
  have w1: "wrap sw '''' ''Helvetica'' fsize (CONTENT_WIDTH - 12) = []"
    by (simp add: wrap_def tokens_def)
  have w2: "wrap sw ''  '' ''Helvetica'' fsize (CONTENT_WIDTH - 12) = []"
    by (simp add: wrap_def tokens_def isspace_def)
  have w3: "wrap sw ''hello'' ''Helvetica'' fsize (CONTENT_WIDTH - 12) = [''hello'']"
    by (simp add: wrap_def tokens_def isspace_def)
  have c: "page (draw_bullets (wrap sw) ['''', ''  '', ''hello''] fsize lh s) =
       page s @ [\<lparr>op_x = MARGIN, op_y = cur_y s, op_text = ''- hello'',
                  op_font = ''Helvetica'', op_size = fsize\<rparr>]"
    by (simp add: draw_bullets_def Let_def w1 w2 w3 setFont_def drawString_def advance_def)
  have d: "cur_y (draw_bullets (wrap sw) ['''', ''  '', ''hello''] fsize lh s) = cur_y s - lh"
    by (simp add: draw_bullets_def Let_def w1 w2 w3 setFont_def drawString_def advance_def)
  show ?thesis using a b c d by blast
qed

theorem bullets_skip_empty_witness:
  "wrap unit_width ''  '' ''Helvetica'' 9.6 (CONTENT_WIDTH - 12) = []
   \<and> draw_bullets (wrap unit_width) [''a'', ''  '', ''b''] 9.6 11.5 initial =
       draw_bullets (wrap unit_width) [''a'', ''b''] 9.6 11.5 initial
   \<and> map op_text (page (draw_bullets (wrap unit_width) ['''', ''  '', ''hello''] 9.6 11.5 initial)) =
       [''- hello'']
   \<and> cur_y (draw_bullets (wrap unit_width) ['''', ''  '', ''hello''] 9.6 11.5 initial) = 738.5"
proof -
  have w: "wrap unit_width ''  '' ''Helvetica'' 9.6 (CONTENT_WIDTH - 12) = []"
    by (simp add: wrap_def tokens_def isspace_def)
  show ?thesis
    using w bullets_skip_empty[of "wrap unit_width" "''  ''" "9.6" "[''a'']" "[''b'']" "11.5" initial
        "[]" unit_width]
    by (simp add: initial_def PAGE_HEIGHT_def MARGIN_def)
qed

text \<open>
  C5. The strings \<open>draw_numbered\<close> draws are, item by item in input order, those of
  the item's wrap result with the prefix of ordinal index + 1 before the first; an item
  that wraps to no line contributes no string, and the items after it keep the ordinals
  of their positions.
\<close>

theorem numbered_ordinals_positional:
  "map op_text (page (draw_numbered ss sw items fsize lh s)) =
     map op_text (page s) @
     concat (map (\<lambda>i. numbered_texts (Suc i) (numbered_wrapped ss sw fsize (Suc i) (items ! i)))
       [0..<length items])"
  using numbered_loop_texts[of ss sw fsize lh 1 items "setFont ''Helvetica'' fsize s"]
  by (simp add: draw_numbered_def setFont_def)

theorem numbered_ordinals_positional_witness:
  "map op_text (page (draw_numbered (wrap unit_width) unit_width [''a'', ''  '', ''b''] 9.6 11.5 initial)) =
     [''1. a'', ''3. b'']"
  using numbered_ordinals_positional[of "wrap unit_width" unit_width "[''a'', ''  '', ''b'']" "9.6" "11.5" initial]
  by (simp add: initial_def numbered_texts_def numbered_wrapped_def wrap_def tokens_def isspace_def
      prefix_of_def str_nat.simps digit_char_def upt_conv_Cons del: upt_Suc)

text \<open>
  C6. \<open>draw_numbered\<close> draws, for the item of index \<open>i\<close>, the block of ordinal
  \<open>i + 1\<close>: the item is wrapped against the content width less the measured width of
  its prefix; the prefix and the first line are drawn at the left margin, every other
  line further right by that measured width, one line height apart, the block starting
  below the lines of the items before it. When the metric adds up over concatenation and
  the ten digits are equally wide, of a positive width, an ordinal of 10 or more leaves
  strictly less text width than an ordinal below 10.
\<close>

theorem numbered_prefix_budget:
  "page (draw_numbered ss sw items fsize lh s) =
     page s @
     concat (map (\<lambda>i. numbered_block ss sw fsize lh (Suc i) (items ! i)
                (cur_y s - lh * real (lines_before ss sw fsize items i)))
       [0..<length items])
   \<and> ((\<forall>a b. sw (a @ b) ''Helvetica'' fsize = sw a ''Helvetica'' fsize + sw b ''Helvetica'' fsize)
        \<and> (\<forall>d<10. sw [digit_char d] ''Helvetica'' fsize = w) \<and> 0 < w \<longrightarrow>
       (\<forall>m n. m < 10 \<and> 10 \<le> n \<longrightarrow> numbered_width sw fsize n < numbered_width sw fsize m))"
proof -
  have a: "page (draw_numbered ss sw items fsize lh s) =
     page s @
     concat (map (\<lambda>i. numbered_block ss sw fsize lh (Suc i) (items ! i)
                (cur_y s - lh * real (lines_before ss sw fsize items i)))
       [0..<length items])"
    using numbered_loop_page[of "setFont ''Helvetica'' fsize s" fsize ss sw lh 1 items]
    by (simp add: draw_numbered_def setFont_def lines_before_def)
  have b: "(\<forall>a b. sw (a @ b) ''Helvetica'' fsize = sw a ''Helvetica'' fsize + sw b ''Helvetica'' fsize)
        \<and> (\<forall>d<10. sw [digit_char d] ''Helvetica'' fsize = w) \<and> 0 < w \<longrightarrow>
       (\<forall>m n. m < 10 \<and> 10 \<le> n \<longrightarrow> numbered_width sw fsize n < numbered_width sw fsize m)"
    using numbered_width_less[of sw fsize w] by blast
  show ?thesis using a b by blast
qed

theorem numbered_prefix_budget_witness:
  "(\<forall>a b. wide_width (a @ b) ''Helvetica'' 9.6 =
       wide_width a ''Helvetica'' 9.6 + wide_width b ''Helvetica'' 9.6)
   \<and> list_all (\<lambda>d. wide_width [digit_char d] ''Helvetica'' 9.6 = 100) [0..<10]
   \<and> numbered_width wide_width 9.6 10 < numbered_width wide_width 9.6 9
   \<and> page (draw_numbered (wrap wide_width) wide_width [''ab cd''] 9.6 11.5 initial) =
       [\<lparr>op_x = 42, op_y = 750, op_text = ''1. ab'', op_font = ''Helvetica'', op_size = 9.6\<rparr>,
        \<lparr>op_x = 342, op_y = 738.5, op_text = ''cd'', op_font = ''Helvetica'', op_size = 9.6\<rparr>]"
proof -
  have add: "\<forall>a b. wide_width (a @ b) ''Helvetica'' 9.6 =
       wide_width a ''Helvetica'' 9.6 + wide_width b ''Helvetica'' 9.6"
    by (simp add: wide_width_def)
  have dig: "\<forall>d<10. wide_width [digit_char d] ''Helvetica'' 9.6 = 100"
    by (simp add: wide_width_def)
  have lst: "list_all (\<lambda>d. wide_width [digit_char d] ''Helvetica'' 9.6 = 100) [0..<10]"
    by (simp add: wide_width_def list_all_iff)
  have pos: "(0::real) < 100" by simp
  note b = numbered_prefix_budget[of "wrap wide_width" wide_width "[''ab cd'']" "9.6" "11.5" initial 100]
  have less: "numbered_width wide_width 9.6 10 < numbered_width wide_width 9.6 9"
    using b add dig pos by simp
  have pg: "page (draw_numbered (wrap wide_width) wide_width [''ab cd''] 9.6 11.5 initial) =
       [\<lparr>op_x = 42, op_y = 750, op_text = ''1. ab'', op_font = ''Helvetica'', op_size = 9.6\<rparr>,
        \<lparr>op_x = 342, op_y = 738.5, op_text = ''cd'', op_font = ''Helvetica'', op_size = 9.6\<rparr>]"
    by (simp add: draw_numbered_def setFont_def drawString_def advance_def Let_def initial_def
        wrap_def tokens_def isspace_def wide_width_def prefix_of_def str_nat.simps digit_char_def
        CONTENT_WIDTH_def PAGE_WIDTH_def PAGE_HEIGHT_def MARGIN_def)
  show ?thesis using add lst less pg by blast
qed

text \<open>
  C7. \<open>draw_paragraph\<close> wraps the text against the full content width, draws one
  string per wrapped line at the left margin, the line of index \<open>k\<close> at height
  \<open>y - k * line_height\<close>, and lowers \<open>y\<close> by \<open>line_height\<close> times the number of
  lines. With the spec's wrapper, an empty or all-whitespace text wraps to no line:
  nothing is drawn and \<open>y\<close> does not move.
\<close>

theorem paragraph_advance:
  "page (draw_paragraph ss text fsize lh s) =
     page s @ placed MARGIN (cur_y s) lh ''Helvetica'' fsize (ss text ''Helvetica'' fsize CONTENT_WIDTH)
   \<and> length (page (draw_paragraph ss text fsize lh s)) =
     length (page s) + length (ss text ''Helvetica'' fsize CONTENT_WIDTH)
   \<and> cur_y (draw_paragraph ss text fsize lh s) =
     cur_y s - lh * real (length (ss text ''Helvetica'' fsize CONTENT_WIDTH))
   \<and> ((\<forall>c\<in>set text. isspace c) \<longrightarrow>
        wrap sw text ''Helvetica'' fsize CONTENT_WIDTH = []
        \<and> page (draw_paragraph (wrap sw) text fsize lh s) = page s
        \<and> cur_y (draw_paragraph (wrap sw) text fsize lh s) = cur_y s - 0)"
proof -
  have e: "(\<forall>c\<in>set text. isspace c) \<Longrightarrow> wrap sw text ''Helvetica'' fsize CONTENT_WIDTH = []"
    by (simp add: wrap_def wrap_loop_Nil_iff tokens_Nil_iff)
  show ?thesis
    using e by (simp add: paragraph_page paragraph_y placed_def placed_Nil)
qed

theorem paragraph_advance_witness:
  "list_all isspace ''  ''
   \<and> page (draw_paragraph (wrap unit_width) ''  '' 9.8 12 initial) = []
   \<and> cur_y (draw_paragraph (wrap unit_width) ''  '' 9.8 12 initial) = 750
   \<and> page (draw_paragraph (wrap unit_width) [] 9.8 12 initial) = []
   \<and> cur_y (draw_paragraph (wrap unit_width) [] 9.8 12 initial) = 750"
  using paragraph_advance[of "wrap unit_width" "''  ''" "9.8" 12 initial unit_width]
    paragraph_advance[of "wrap unit_width" "[]" "9.8" 12 initial unit_width]
  by (simp add: isspace_def initial_def PAGE_HEIGHT_def MARGIN_def placed_def)

text \<open>
  C8. Running the script again on the world the first run left gives the same outcome
  and leaves the same file system; when a run succeeds, the output file holds the page
  of the drawing calls started from the fresh canvas, whatever the world was.
\<close>

theorem script_idempotent:
  "fst (script ss sw (snd (script ss sw w))) = fst (script ss sw w)
   \<and> files (snd (script ss sw (snd (script ss sw w)))) = files (snd (script ss sw w))
   \<and> (fst (script ss sw w) = Inr () \<longrightarrow>
        files (snd (script ss sw w)) OUTPUT_PATH = Some (File (page (driver ss sw initial))))"
proof -
  have c: "fst (script ss sw w) = Inr () \<longrightarrow>
        files (snd (script ss sw w)) OUTPUT_PATH = Some (File (page (driver ss sw initial)))"
    by (simp add: script_def Let_def save_def split: sum.splits if_splits)
  show ?thesis using script_twice[of ss sw w] c by blast
qed

theorem script_idempotent_witness:
  "fst (script one_line unit_width empty_world) = Inr ()
   \<and> fst (script one_line unit_width (snd (script one_line unit_width empty_world))) = Inr ()
   \<and> files (snd (script one_line unit_width (snd (script one_line unit_width empty_world)))) =
       files (snd (script one_line unit_width empty_world))
   \<and> files (snd (script one_line unit_width empty_world)) OUTPUT_PATH =
       Some (File (page (driver one_line unit_width initial)))"
proof -
  have y: "\<not> cur_y (driver one_line unit_width initial) < MARGIN"
    by (simp add: one_line_y MARGIN_def)
  have nd: "(Map.empty([''output''] \<mapsto> Dir, [''output'', ''pdf''] \<mapsto> Dir)) OUTPUT_PATH \<noteq> Some Dir"
    by (simp add: OUTPUT_PATH_def)
  have ok: "fst (script one_line unit_width empty_world) = Inr ()"
    by (simp add: script_saved[OF mkdir_empty y nd])
  show ?thesis
    using ok script_idempotent[of one_line unit_width empty_world] by simp
qed

text \<open>
  C9. The two primitives that do not wrap draw one string and lower the cursor by their
  fixed line height for every text, the empty string included: \<open>draw_title\<close> draws
  the text at the left margin in Helvetica-Bold 18 and lowers \<open>y\<close> by 22,
  \<open>draw_heading\<close> draws it in Helvetica-Bold 11.5 and lowers \<open>y\<close> by 14.
\<close>

theorem title_heading_always_draw:
  "page (draw_title text s) = page s @
     [\<lparr>op_x = MARGIN, op_y = cur_y s, op_text = text,
       op_font = ''Helvetica-Bold'', op_size = 18\<rparr>]
   \<and> cur_y (draw_title text s) = cur_y s - 22
   \<and> page (draw_heading text s) = page s @
     [\<lparr>op_x = MARGIN, op_y = cur_y s, op_text = text,
       op_font = ''Helvetica-Bold'', op_size = 11.5\<rparr>]
   \<and> cur_y (draw_heading text s) = cur_y s - 14
   \<and> length (page (draw_title [] s)) = Suc (length (page s))
   \<and> cur_y (draw_title [] s) = cur_y s - 22
   \<and> length (page (draw_heading [] s)) = Suc (length (page s))
   \<and> cur_y (draw_heading [] s) = cur_y s - 14"
  by (simp add: draw_title_def draw_heading_def setFont_def drawString_def advance_def)

text \<open>
  C10. The directories are made before anything is drawn: whenever making them
  succeeds, the parent directory of the output file is there when the script ends,
  whatever happens afterwards. In particular when the script ends with the overflow
  error, both directories are there, the output path holds what it held before, and the
  file system is exactly the one the \<open>mkdir\<close> left.
\<close>

theorem directory_survives_overflow:
  "(mkdir_parents (parent OUTPUT_PATH) (files w) = Inr fs1 \<longrightarrow>
      files (snd (script ss sw w)) (parent OUTPUT_PATH) = Some Dir)
   \<and> (fst (script ss sw w) = Inl (RuntimeError v) \<longrightarrow>
        files (snd (script ss sw w)) (parent OUTPUT_PATH) = Some Dir
        \<and> files (snd (script ss sw w)) [''output''] = Some Dir
        \<and> files (snd (script ss sw w)) OUTPUT_PATH = files w OUTPUT_PATH
        \<and> mkdir_parents (parent OUTPUT_PATH) (files w) = Inr (files (snd (script ss sw w))))"
proof (cases "mkdir_parents (parent OUTPUT_PATH) (files w)")
  case (Inl e)
  have "e = OSError"
    using Inl by (simp add: parent_output mkdir_two split: option.splits node.splits)
  then show ?thesis using Inl by (simp add: script_fail)
next
  case (Inr fs2)
  note m = mkdir_output[OF Inr]
  show ?thesis
  proof (cases "cur_y (driver ss sw initial) < MARGIN")
    case True
    show ?thesis
      using m(1) m(2) m(3) by (auto simp: script_overflow[OF Inr True] Inr)
  next
    case False
    show ?thesis
    proof (cases "fs2 OUTPUT_PATH = Some Dir")
      case True
      show ?thesis
        using m(2) by (auto simp: script_unsaved[OF Inr False True])
    next
      case nd: False
      show ?thesis
        using m(2) parent_not_output by (auto simp: script_saved[OF Inr False nd])
    qed
  qed
qed

theorem directory_survives_overflow_witness:
  "files empty_world (parent OUTPUT_PATH) = None
   \<and> fst (script hundred_lines unit_width empty_world) = Inl (RuntimeError (- 23616))
   \<and> files (snd (script hundred_lines unit_width empty_world)) (parent OUTPUT_PATH) = Some Dir
   \<and> files (snd (script hundred_lines unit_width empty_world)) [''output''] = Some Dir
   \<and> files (snd (script hundred_lines unit_width empty_world)) OUTPUT_PATH = None"
proof -
  have y: "cur_y (driver hundred_lines unit_width initial) < MARGIN"
    by (simp add: hundred_lines_y MARGIN_def)
  have r: "fst (script hundred_lines unit_width empty_world) = Inl (RuntimeError (- 23616))"
    by (simp add: script_overflow[OF mkdir_empty y] hundred_lines_y)
  have e: "files empty_world (parent OUTPUT_PATH) = None" "files empty_world OUTPUT_PATH = None"
    by (simp_all add: empty_world_def)
  show ?thesis
    using r e directory_survives_overflow[of empty_world _ hundred_lines unit_width "- 23616"]
    by simp
qed

end
